theory Spec2Isabelle
  imports Complex_Main
begin

section \<open>The Trac oracle aggregator: reputation-based weighted consensus\<close>

text \<open>
  A shallow embedding of \<^verbatim>\<open>src/consensus.js\<close>.

  Prices and balances are finite numbers and are modelled as reals; they are compared and
  sorted exactly, as binary64 values are. The code's arithmetic on them rounds. For
  \<^verbatim>\<open>calculateWeightedMedian\<close>, whose result depends on the rounding of the running sum
  of the weights, the embedding \<open>calculateWeightedMedianWith\<close> takes the number
  operations (\<^verbatim>\<open>+\<close>, \<^verbatim>\<open>/\<close>, \<^verbatim>\<open>>=\<close> and the literals) as a parameter over any type of
  numbers, so that its theorems hold for binary64 with its rounding, infinities and NaN as
  for any other arithmetic; \<open>calculateWeightedMedian\<close> is its instance at exact real
  arithmetic. The statistics of the round (\<open>computeMean\<close>, \<open>computeStandardDeviation\<close>,
  the weight \<^verbatim>\<open>Math.sqrt(balance)\<close>) are embedded with exact real arithmetic only: which
  response the rounding of binary64 puts on either side of the outlier test is not
  expressed by this embedding.
  The module-level SQLite table \<^verbatim>\<open>reputation\<close> is a map from the primary key
  \<^verbatim>\<open>peerId\<close> to the row \<open>(offenses, blacklisted)\<close>, two INTEGER columns taken as
  unbounded integers; every function that touches the table takes the table and returns
  the new one. A thrown \<^verbatim>\<open>Error\<close>
  is the \<open>Inl\<close> of a sum, returned together with the table as the throw leaves it.
  The \<^verbatim>\<open>console\<close> output is not modelled.
\<close>

subsection \<open>Constants and data\<close>

definition MINIMUM_STAKE_THRESHOLD :: real where
  "MINIMUM_STAKE_THRESHOLD = 100"

definition SLASHING_THRESHOLD :: int where
  "SLASHING_THRESHOLD = 3"

text \<open>A row of the table: the columns \<^verbatim>\<open>offenses\<close> and \<^verbatim>\<open>blacklisted\<close>.\<close>

type_synonym row = "int \<times> int"

type_synonym db = "string \<rightharpoonup> row"

text \<open>The object \<^verbatim>\<open>{ offenses, blacklisted }\<close> that \<^verbatim>\<open>getSlashingRecord\<close> returns.\<close>

record slashingRecord =
  offenses :: int
  blacklisted :: bool

text \<open>
  An incoming submission \<^verbatim>\<open>{ peerId, price, balance }\<close>, and the object
  \<^verbatim>\<open>{ peerId, price, weight, balance }\<close> pushed to \<^verbatim>\<open>validResponses\<close>.
  \<^verbatim>\<open>calculateWeightedMedian\<close> reads only \<^verbatim>\<open>price\<close> and \<^verbatim>\<open>weight\<close>. The type of the weight
  is a parameter; in a \<open>response\<close> it is a real.
\<close>

record submission =
  peerId :: string
  price :: real
  balance :: real

record 'n weightedResponse = submission +
  weight :: 'n

type_synonym response = "real weightedResponse"

record consensusResult =
  finalPrice :: real
  participants :: nat
  totalWeight :: real

text \<open>
  The operations on numbers that \<^verbatim>\<open>calculateWeightedMedian\<close> uses: the literals
  \<^verbatim>\<open>0\<close> and \<^verbatim>\<open>2\<close>, \<^verbatim>\<open>a + b\<close>, \<^verbatim>\<open>a / b\<close> and \<^verbatim>\<open>a >= b\<close>, over a type \<open>'n\<close> of numbers;
  and their exact instance on the reals.
\<close>

record 'n arithmetic =
  numLit :: "nat \<Rightarrow> 'n"
  numAdd :: "'n \<Rightarrow> 'n \<Rightarrow> 'n"
  numDiv :: "'n \<Rightarrow> 'n \<Rightarrow> 'n"
  numGe :: "'n \<Rightarrow> 'n \<Rightarrow> bool"

definition exactArithmetic :: "real arithmetic" where
  "exactArithmetic = \<lparr>numLit = real, numAdd = (\<lambda>a b. a + b), numDiv = (\<lambda>a b. a / b),
                       numGe = (\<lambda>a b. a \<ge> b)\<rparr>"

text \<open>
  The two errors of \<^verbatim>\<open>processOracleConsensus\<close>:
  \<^verbatim>\<open>"No qualified responses for consensus."\<close> and
  \<^verbatim>\<open>"No responses passed the outlier filter."\<close>.
\<close>

datatype error = NoQualifiedResponses | NoResponsesPassedOutlierFilter

subsection \<open>The reputation table\<close>

text \<open>\<^verbatim>\<open>INSERT OR IGNORE INTO reputation (peerId, offenses, blacklisted) VALUES (?, 0, 0)\<close>\<close>

definition stmtInsert :: "db \<Rightarrow> string \<Rightarrow> db" where
  "stmtInsert d p = (case d p of None \<Rightarrow> d(p \<mapsto> (0, 0)) | Some r \<Rightarrow> d)"

text \<open>\<^verbatim>\<open>UPDATE reputation SET offenses = ?, blacklisted = ? WHERE peerId = ?\<close>\<close>

definition stmtUpdate :: "db \<Rightarrow> int \<Rightarrow> int \<Rightarrow> string \<Rightarrow> db" where
  "stmtUpdate d off bl p = (case d p of None \<Rightarrow> d | Some r \<Rightarrow> d(p \<mapsto> (off, bl)))"

definition getSlashingRecord :: "db \<Rightarrow> string \<Rightarrow> slashingRecord \<times> db" where
  "getSlashingRecord d p =
     (case d p of
        None \<Rightarrow> (\<lparr>offenses = 0, blacklisted = False\<rparr>, stmtInsert d p)
      | Some (off, bl) \<Rightarrow> (\<lparr>offenses = off, blacklisted = (bl = 1)\<rparr>, d))"

definition recordSlashingOffense :: "db \<Rightarrow> string \<Rightarrow> db" where
  "recordSlashingOffense d p =
     (let (record0, d1) = getSlashingRecord d p;
          record1 = record0\<lparr>offenses := offenses record0 + 1\<rparr>;
          record2 = (if offenses record1 \<ge> SLASHING_THRESHOLD
                     then record1\<lparr>blacklisted := True\<rparr> else record1)
      in stmtUpdate d1 (offenses record2) (if blacklisted record2 then 1 else 0) p)"

subsection \<open>Statistics\<close>

text \<open>
  \<^verbatim>\<open>[...prices].sort((a, b) => a - b)\<close> is the ascending sort; \<^verbatim>\<open>reduce((a, b) => a + b, 0)\<close>
  is a left fold from 0.
\<close>

definition computeMedian :: "real list \<Rightarrow> real" where
  "computeMedian prices =
     (if length prices = 0 then 0
      else let sortedPrices = sort prices;
               mid = length sortedPrices div 2
           in if length sortedPrices mod 2 = 0
              then (sortedPrices ! (mid - 1) + sortedPrices ! mid) / 2
              else sortedPrices ! mid)"

definition computeStandardDeviation :: "real list \<Rightarrow> real \<Rightarrow> real" where
  "computeStandardDeviation prices mean =
     (if length prices = 0 then 0
      else let squaredDiffs = map (\<lambda>price. (price - mean) ^ 2) prices;
               avgSquaredDiff = foldl (\<lambda>a b. a + b) 0 squaredDiffs / real (length prices)
           in sqrt avgSquaredDiff)"

definition computeMean :: "real list \<Rightarrow> real" where
  "computeMean prices =
     (if length prices = 0 then 0
      else let sum = foldl (\<lambda>a b. a + b) 0 prices
           in sum / real (length prices))"

text \<open>
  The scan of \<^verbatim>\<open>calculateWeightedMedian\<close>: \<open>None\<close> when the \<^verbatim>\<open>for\<close> loop ends without
  returning. \<^verbatim>\<open>Array.prototype.sort\<close> is stable, as \<open>sort_key\<close> is.
\<close>

fun scanWeights :: "real \<Rightarrow> real \<Rightarrow> response list \<Rightarrow> real option" where
  "scanWeights targetWeight cumulativeWeight [] = None"
| "scanWeights targetWeight cumulativeWeight (r # rest) =
     (let cumulativeWeight' = cumulativeWeight + weight r
      in if cumulativeWeight' \<ge> targetWeight then Some (price r)
         else scanWeights targetWeight cumulativeWeight' rest)"

definition calculateWeightedMedian :: "response list \<Rightarrow> real" where
  "calculateWeightedMedian qualifiedResponses =
     (if length qualifiedResponses = 0 then 0
      else let sortedResponses = sort_key price qualifiedResponses;
               totalWeight = foldl (\<lambda>sum res. sum + weight res) 0 sortedResponses;
               targetWeight = totalWeight / 2
           in case scanWeights targetWeight 0 sortedResponses of
                Some p \<Rightarrow> p
              | None \<Rightarrow> price (sortedResponses ! (length sortedResponses - 1)))"

text \<open>
  The same function over the number operations \<open>ar\<close>: the running sum, the total weight,
  the target and the test \<^verbatim>\<open>cumulativeWeight >= targetWeight\<close> are computed with them.
\<close>

fun scanWeightsWith ::
  "'n arithmetic \<Rightarrow> 'n \<Rightarrow> 'n \<Rightarrow> 'n weightedResponse list \<Rightarrow> real option" where
  "scanWeightsWith ar targetWeight cumulativeWeight [] = None"
| "scanWeightsWith ar targetWeight cumulativeWeight (r # rest) =
     (let cumulativeWeight' = numAdd ar cumulativeWeight (weight r)
      in if numGe ar cumulativeWeight' targetWeight then Some (price r)
         else scanWeightsWith ar targetWeight cumulativeWeight' rest)"

definition calculateWeightedMedianWith ::
  "'n arithmetic \<Rightarrow> 'n weightedResponse list \<Rightarrow> real" where
  "calculateWeightedMedianWith ar qualifiedResponses =
     (if length qualifiedResponses = 0 then 0
      else let sortedResponses = sort_key price qualifiedResponses;
               totalWeight = foldl (\<lambda>sum res. numAdd ar sum (weight res)) (numLit ar 0)
                               sortedResponses;
               targetWeight = numDiv ar totalWeight (numLit ar 2)
           in case scanWeightsWith ar targetWeight (numLit ar 0) sortedResponses of
                Some p \<Rightarrow> p
              | None \<Rightarrow> price (sortedResponses ! (length sortedResponses - 1)))"

subsection \<open>The round\<close>

text \<open>Stage 1, the loop over \<^verbatim>\<open>responses\<close> that fills \<^verbatim>\<open>validResponses\<close>.\<close>

fun sybilDefense :: "db \<Rightarrow> submission list \<Rightarrow> response list \<Rightarrow> response list \<times> db" where
  "sybilDefense d [] validResponses = (validResponses, d)"
| "sybilDefense d (res # rest) validResponses =
     (let (slashingRecord, d1) = getSlashingRecord d (peerId res)
      in if blacklisted slashingRecord then sybilDefense d1 rest validResponses
         else if balance res < MINIMUM_STAKE_THRESHOLD then sybilDefense d1 rest validResponses
         else sybilDefense d1 rest
                (validResponses @
                   [\<lparr>peerId = peerId res, price = price res, balance = balance res,
                     weight = sqrt (balance res)\<rparr>]))"

text \<open>Stage 2, the loop over \<^verbatim>\<open>validResponses\<close> that fills \<^verbatim>\<open>qualifiedForConsensus\<close>.\<close>

fun outlierFilter ::
  "real \<Rightarrow> real \<Rightarrow> db \<Rightarrow> response list \<Rightarrow> response list \<Rightarrow> response list \<times> db" where
  "outlierFilter medianPrice stdDev d [] qualifiedForConsensus = (qualifiedForConsensus, d)"
| "outlierFilter medianPrice stdDev d (res # rest) qualifiedForConsensus =
     (let diff = \<bar>price res - medianPrice\<bar>;
          zScore = (if stdDev = 0 then 0 else diff / stdDev)
      in if zScore > 2
         then outlierFilter medianPrice stdDev (recordSlashingOffense d (peerId res)) rest
                qualifiedForConsensus
         else outlierFilter medianPrice stdDev d rest (qualifiedForConsensus @ [res]))"

definition processOracleConsensus ::
  "db \<Rightarrow> submission list \<Rightarrow> (error + consensusResult) \<times> db" where
  "processOracleConsensus d responses =
     (let (validResponses, d1) = sybilDefense d responses []
      in if length validResponses = 0 then (Inl NoQualifiedResponses, d1)
         else
           let prices = map price validResponses;
               medianPrice = computeMedian prices;
               meanPrice = computeMean prices;
               stdDev = computeStandardDeviation prices meanPrice;
               (qualifiedForConsensus, d2) = outlierFilter medianPrice stdDev d1 validResponses []
           in if length qualifiedForConsensus = 0 then (Inl NoResponsesPassedOutlierFilter, d2)
              else
                (Inr \<lparr>finalPrice = calculateWeightedMedian qualifiedForConsensus,
                      participants = length qualifiedForConsensus,
                      totalWeight = foldl (\<lambda>sum res. sum + weight res) 0 qualifiedForConsensus\<rparr>,
                 d2))"

subsection \<open>Notions used to state the properties\<close>

text \<open>
  The cumulative weight after the scan of \<^verbatim>\<open>calculateWeightedMedian\<close> has added the
  response at index \<open>i\<close> of the sorted list.
\<close>

definition cumulativeWeightAt :: "response list \<Rightarrow> nat \<Rightarrow> real" where
  "cumulativeWeightAt sortedResponses i = sum_list (map weight (take (Suc i) sortedResponses))"

text \<open>
  With the number operations \<open>ar\<close>: the cumulative weight that the scan holds after it has
  added the response at index \<open>i\<close> of the sorted list, and the target, the total weight
  divided by 2.
\<close>

definition runningWeight :: "'n arithmetic \<Rightarrow> 'n weightedResponse list \<Rightarrow> nat \<Rightarrow> 'n" where
  "runningWeight ar sortedResponses i =
     foldl (\<lambda>sum res. numAdd ar sum (weight res)) (numLit ar 0) (take (Suc i) sortedResponses)"

definition targetWeightOf :: "'n arithmetic \<Rightarrow> 'n weightedResponse list \<Rightarrow> 'n" where
  "targetWeightOf ar sortedResponses =
     numDiv ar (foldl (\<lambda>sum res. numAdd ar sum (weight res)) (numLit ar 0) sortedResponses)
       (numLit ar 2)"

text \<open>The data of the first test of \<^verbatim>\<open>consensus.test.js\<close> (the test objects have no balance).\<close>

definition scenario :: "response list" where
  "scenario = [\<lparr>peerId = ''p1'', price = 100, balance = 100, weight = 10\<rparr>,
               \<lparr>peerId = ''p2'', price = 110, balance = 400, weight = 20\<rparr>,
               \<lparr>peerId = ''p3'', price = 120, balance = 2500, weight = 50\<rparr>,
               \<lparr>peerId = ''p4'', price = 130, balance = 900, weight = 30\<rparr>]"

text \<open>Responses whose weights are all 0, and responses of equal weight.\<close>

definition zeroWeights :: "response list" where
  "zeroWeights = [\<lparr>peerId = ''p1'', price = 120, balance = 0, weight = 0\<rparr>,
                  \<lparr>peerId = ''p2'', price = 100, balance = 0, weight = 0\<rparr>]"



text \<open>Six responses of the equal weight \<open>2^53 + 6\<close>, a binary64 number.\<close>

definition sixEqualWeights :: "response list" where
  "sixEqualWeights =
     [\<lparr>peerId = ''p1'', price = 1, balance = 0, weight = 9007199254740998\<rparr>,
      \<lparr>peerId = ''p2'', price = 2, balance = 0, weight = 9007199254740998\<rparr>,
      \<lparr>peerId = ''p3'', price = 3, balance = 0, weight = 9007199254740998\<rparr>,
      \<lparr>peerId = ''p4'', price = 4, balance = 0, weight = 9007199254740998\<rparr>,
      \<lparr>peerId = ''p5'', price = 5, balance = 0, weight = 9007199254740998\<rparr>,
      \<lparr>peerId = ''p6'', price = 6, balance = 0, weight = 9007199254740998\<rparr>]"

text \<open>
  The record of a peer as \<^verbatim>\<open>getSlashingRecord\<close> reports it: the row, or the default
  \<open>(0, false)\<close> for a peer without a row.
\<close>

definition reputation :: "db \<Rightarrow> string \<Rightarrow> slashingRecord" where
  "reputation d p = fst (getSlashingRecord d p)"

text \<open>
  The two operations on the table that the module has, and their effect on the table:
  the lookup \<^verbatim>\<open>getSlashingRecord\<close> and \<^verbatim>\<open>recordSlashingOffense\<close>.
\<close>

datatype storeOp = Get string | RecordOffense string

fun applyOp :: "db \<Rightarrow> storeOp \<Rightarrow> db" where
  "applyOp d (Get p) = snd (getSlashingRecord d p)"
| "applyOp d (RecordOffense p) = recordSlashingOffense d p"

text \<open>
  The two tests of stage 1 on a submission, the response that stage 1 builds from a
  submission, and the test of stage 2 as the specification words it: more than two standard
  deviations from the median, with a standard deviation that is not 0.
\<close>

definition passesSybilDefense :: "db \<Rightarrow> submission \<Rightarrow> bool" where
  "passesSybilDefense d res \<longleftrightarrow>
     \<not> blacklisted (reputation d (peerId res)) \<and> \<not> balance res < MINIMUM_STAKE_THRESHOLD"

definition validResponse :: "submission \<Rightarrow> response" where
  "validResponse res =
     \<lparr>peerId = peerId res, price = price res, balance = balance res, weight = sqrt (balance res)\<rparr>"

definition isOutlier :: "real \<Rightarrow> real \<Rightarrow> response \<Rightarrow> bool" where
  "isOutlier median stdDev res \<longleftrightarrow> stdDev > 0 \<and> \<bar>price res - median\<bar> > 2 * stdDev"




definition sybilRound :: "submission list" where
  "sybilRound = [\<lparr>peerId = ''test_sybil'', price = 64200, balance = 50\<rparr>]"

definition blacklistTable :: db where
  "blacklistTable = Map.empty(''bad_actor'' \<mapsto> (3, 1))"

definition blacklistRound :: "submission list" where
  "blacklistRound = [\<lparr>peerId = ''peer_a'', price = 100, balance = 400\<rparr>,
                     \<lparr>peerId = ''peer_b'', price = 100, balance = 400\<rparr>,
                     \<lparr>peerId = ''peer_c'', price = 100, balance = 400\<rparr>,
                     \<lparr>peerId = ''bad_actor'', price = 100, balance = 10000\<rparr>]"

section \<open>Folds, sorting and the scan\<close>

lemma foldl_plus_sum_list:
  "foldl (\<lambda>s x. s + f x) a xs = (a :: real) + sum_list (map f xs)"
  by (induction xs arbitrary: a) (simp_all add: add.assoc)


lemma sum_list_insort_key:
  "sum_list (map f (insort_key k x xs)) = (f x :: real) + sum_list (map f xs)"
  by (induction xs) simp_all

lemma sum_list_sort_key:
  "sum_list (map f (sort_key k xs)) = (sum_list (map f xs) :: real)"
  by (induction xs) (simp_all add: sum_list_insort_key)



text \<open>The scan returns the response at the first index whose cumulative weight reaches the target.\<close>

lemma scanWeights_first:
  "i < length rs \<Longrightarrow> t \<le> c + sum_list (map weight (take (Suc i) rs)) \<Longrightarrow>
   \<forall>j<i. c + sum_list (map weight (take (Suc j) rs)) < t \<Longrightarrow>
   scanWeights t c rs = Some (price (rs ! i))"
proof (induction rs arbitrary: c i)
  case Nil
  then show ?case by simp
next
  case (Cons r rs)
  show ?case
  proof (cases i)
    case 0
    with Cons.prems show ?thesis by simp
  next
    case (Suc k)
    from Cons.prems(3) Suc have "c + weight r < t" by force
    moreover have "scanWeights t (c + weight r) rs = Some (price (rs ! k))"
    proof (rule Cons.IH)
      show "k < length rs" using Cons.prems(1) Suc by simp
      show "t \<le> c + weight r + sum_list (map weight (take (Suc k) rs))"
        using Cons.prems(2) Suc by (simp add: add.assoc)
      show "\<forall>j<k. c + weight r + sum_list (map weight (take (Suc j) rs)) < t"
      proof (intro allI impI)
        fix j assume "j < k"
        then have "Suc j < i" using Suc by simp
        with Cons.prems(3) have "c + sum_list (map weight (take (Suc (Suc j)) (r # rs))) < t"
          by blast
        then show "c + weight r + sum_list (map weight (take (Suc j) rs)) < t"
          by (simp add: add.assoc)
      qed
    qed
    ultimately show ?thesis using Suc by simp
  qed
qed

lemma scanWeights_Some_mem:
  "scanWeights t c rs = Some p \<Longrightarrow> p \<in> price ` set rs"
  by (induction rs arbitrary: c) (auto simp: Let_def split: if_splits)

lemma calculateWeightedMedian_unfold:
  "rs \<noteq> [] \<Longrightarrow> calculateWeightedMedian rs =
     (case scanWeights (sum_list (map weight rs) / 2) 0 (sort_key price rs) of
        Some p \<Rightarrow> p | None \<Rightarrow> price (sort_key price rs ! (length rs - 1)))"
  by (simp add: calculateWeightedMedian_def Let_def foldl_plus_sum_list sum_list_sort_key
      split: option.split)

lemma calculateWeightedMedian_first:
  assumes "i < length rs"
    and "sum_list (map weight rs) / 2 \<le> cumulativeWeightAt (sort_key price rs) i"
    and "\<forall>j<i. cumulativeWeightAt (sort_key price rs) j < sum_list (map weight rs) / 2"
  shows "calculateWeightedMedian rs = price (sort_key price rs ! i)"
proof -
  from assms(1) have ne: "rs \<noteq> []" by auto
  have "scanWeights (sum_list (map weight rs) / 2) 0 (sort_key price rs)
        = Some (price (sort_key price rs ! i))"
    using assms by (intro scanWeights_first) (simp_all add: cumulativeWeightAt_def)
  with ne show ?thesis by (simp add: calculateWeightedMedian_unfold)
qed

section \<open>The scan over any arithmetic\<close>

lemma exactArithmetic_fields:
  "numLit exactArithmetic k = real k"
  "numAdd exactArithmetic a b = a + b"
  "numDiv exactArithmetic a b = a / b"
  "numGe exactArithmetic a b \<longleftrightarrow> b \<le> a"
  by (simp_all add: exactArithmetic_def)

lemma scanWeightsWith_exact:
  "scanWeightsWith exactArithmetic t c rs = scanWeights t c rs"
  by (induction rs arbitrary: c) (simp_all add: exactArithmetic_fields Let_def)

lemma calculateWeightedMedianWith_exact:
  "calculateWeightedMedianWith exactArithmetic rs = calculateWeightedMedian rs"
  by (simp add: calculateWeightedMedianWith_def calculateWeightedMedian_def
      scanWeightsWith_exact exactArithmetic_fields)

lemma scanWeightsWith_first:
  "i < length rs \<Longrightarrow>
   numGe ar (foldl (\<lambda>sum res. numAdd ar sum (weight res)) c (take (Suc i) rs)) t \<Longrightarrow>
   \<forall>j<i. \<not> numGe ar (foldl (\<lambda>sum res. numAdd ar sum (weight res)) c (take (Suc j) rs)) t \<Longrightarrow>
   scanWeightsWith ar t c rs = Some (price (rs ! i))"
proof (induction rs arbitrary: c i)
  case Nil
  then show ?case by simp
next
  case (Cons r rs)
  show ?case
  proof (cases i)
    case 0
    with Cons.prems show ?thesis by simp
  next
    case (Suc k)
    from Cons.prems(3) Suc have miss: "\<not> numGe ar (numAdd ar c (weight r)) t" by force
    have "scanWeightsWith ar t (numAdd ar c (weight r)) rs = Some (price (rs ! k))"
    proof (rule Cons.IH)
      show "k < length rs" using Cons.prems(1) Suc by simp
      show "numGe ar (foldl (\<lambda>sum res. numAdd ar sum (weight res)) (numAdd ar c (weight r))
              (take (Suc k) rs)) t"
        using Cons.prems(2) Suc by simp
      show "\<forall>j<k. \<not> numGe ar (foldl (\<lambda>sum res. numAdd ar sum (weight res))
              (numAdd ar c (weight r)) (take (Suc j) rs)) t"
      proof (intro allI impI)
        fix j assume "j < k"
        then have "Suc j < i" using Suc by simp
        with Cons.prems(3)
        have "\<not> numGe ar (foldl (\<lambda>sum res. numAdd ar sum (weight res)) c
                 (take (Suc (Suc j)) (r # rs))) t"
          by blast
        then show "\<not> numGe ar (foldl (\<lambda>sum res. numAdd ar sum (weight res))
              (numAdd ar c (weight r)) (take (Suc j) rs)) t"
          by simp
      qed
    qed
    with miss Suc show ?thesis by simp
  qed
qed

lemma calculateWeightedMedianWith_first:
  assumes "i < length rs"
    and "numGe ar (runningWeight ar (sort_key price rs) i) (targetWeightOf ar (sort_key price rs))"
    and "\<forall>j<i. \<not> numGe ar (runningWeight ar (sort_key price rs) j)
                   (targetWeightOf ar (sort_key price rs))"
  shows "calculateWeightedMedianWith ar rs = price (sort_key price rs ! i)"
proof -
  from assms(1) have ne: "rs \<noteq> []" by auto
  have "scanWeightsWith ar (targetWeightOf ar (sort_key price rs)) (numLit ar 0) (sort_key price rs)
        = Some (price (sort_key price rs ! i))"
    using assms by (intro scanWeightsWith_first) (simp_all add: runningWeight_def)
  with ne show ?thesis
    by (simp add: calculateWeightedMedianWith_def targetWeightOf_def Let_def)
qed

lemma runningWeight_last:
  "rs \<noteq> [] \<Longrightarrow> runningWeight ar (sort_key price rs) (length rs - 1)
     = foldl (\<lambda>sum res. numAdd ar sum (weight res)) (numLit ar 0) (sort_key price rs)"
  by (simp add: runningWeight_def)

lemma first_reaching_exists_with:
  assumes "rs \<noteq> []"
    and "numGe ar (foldl (\<lambda>sum res. numAdd ar sum (weight res)) (numLit ar 0) (sort_key price rs))
           (targetWeightOf ar (sort_key price rs))"
  shows "\<exists>i<length rs.
           numGe ar (runningWeight ar (sort_key price rs) i) (targetWeightOf ar (sort_key price rs)) \<and>
           (\<forall>j<i. \<not> numGe ar (runningWeight ar (sort_key price rs) j)
                       (targetWeightOf ar (sort_key price rs)))"
proof -
  let ?P = "\<lambda>i. i < length rs \<and>
              numGe ar (runningWeight ar (sort_key price rs) i) (targetWeightOf ar (sort_key price rs))"
  have "?P (length rs - 1)"
    using assms runningWeight_last[OF assms(1), of ar] by simp
  then have l: "?P (LEAST i. ?P i)" by (rule LeastI)
  have "\<forall>j<(LEAST i. ?P i). \<not> numGe ar (runningWeight ar (sort_key price rs) j)
                                  (targetWeightOf ar (sort_key price rs))"
  proof (intro allI impI)
    fix j assume j: "j < (LEAST i. ?P i)"
    then have "\<not> ?P j" by (rule not_less_Least)
    moreover from j l have "j < length rs" by simp
    ultimately show "\<not> numGe ar (runningWeight ar (sort_key price rs) j)
                         (targetWeightOf ar (sort_key price rs))"
      by simp
  qed
  with l show ?thesis by blast
qed

lemma foldl_numAdd_nonneg:
  fixes er :: "real arithmetic"
  assumes "\<forall>a b. 0 \<le> a \<longrightarrow> 0 \<le> b \<longrightarrow> 0 \<le> numAdd er a b"
  shows "0 \<le> c \<Longrightarrow> \<forall>r\<in>set ws. 0 \<le> weight r \<Longrightarrow>
         0 \<le> foldl (\<lambda>sum res. numAdd er sum (weight res)) c ws"
  using assms by (induction ws arbitrary: c) simp_all

lemma first_reaching_exists_nonneg:
  fixes er :: "real arithmetic"
  assumes ne: "ws \<noteq> []"
    and ge: "\<forall>a b. numGe er a b \<longleftrightarrow> b \<le> a"
    and zero: "numLit er 0 = 0"
    and add: "\<forall>a b. 0 \<le> a \<longrightarrow> 0 \<le> b \<longrightarrow> 0 \<le> numAdd er a b"
    and half: "\<forall>a. 0 \<le> a \<longrightarrow> numDiv er a (numLit er 2) \<le> a"
    and nonneg: "\<forall>r\<in>set ws. 0 \<le> weight r"
  shows "\<exists>i<length ws.
           numGe er (runningWeight er (sort_key price ws) i) (targetWeightOf er (sort_key price ws)) \<and>
           (\<forall>j<i. \<not> numGe er (runningWeight er (sort_key price ws) j)
                       (targetWeightOf er (sort_key price ws)))"
proof -
  let ?T = "foldl (\<lambda>sum res. numAdd er sum (weight res)) (numLit er 0) (sort_key price ws)"
  have "\<forall>r\<in>set (sort_key price ws). 0 \<le> weight r" using nonneg by simp
  then have "0 \<le> ?T" using zero by (intro foldl_numAdd_nonneg[OF add]) simp_all
  then have "numDiv er ?T (numLit er 2) \<le> ?T" using half by blast
  then have "numGe er ?T (targetWeightOf er (sort_key price ws))"
    using ge by (simp add: targetWeightOf_def)
  with ne show ?thesis by (rule first_reaching_exists_with)
qed

section \<open>The weighted median\<close>

text \<open>
  Claim C1. For a non-empty list of responses and any number operations,
  \<^verbatim>\<open>calculateWeightedMedian\<close> works on the list sorted ascending by price, its target is
  the total weight (the cumulative weight after the last response) divided by 2, and it
  returns the price of the first response of the sorted list whose cumulative weight, the
  running sum as the operations compute it, is at least the target. There is such a
  response whenever the total weight is at least its own half; with exact comparison this
  holds for all weights that are not negative, when an addition of numbers that are not
  negative is not negative and the half of such a number is at most the number, as in
  binary64. On the responses (100, 10), (110, 20), (120, 50), (130, 30), whose sums
  and half total are computed without rounding, the result is 120.
\<close>

theorem weightedMedian_first_reaching_target:
  fixes ar :: "'n arithmetic" and er :: "real arithmetic"
  assumes "rs \<noteq> []"
  shows "sorted (map price (sort_key price rs))
       \<and> targetWeightOf ar (sort_key price rs)
           = numDiv ar (runningWeight ar (sort_key price rs) (length rs - 1)) (numLit ar 2)
       \<and> (\<forall>i<length rs.
            numGe ar (runningWeight ar (sort_key price rs) i) (targetWeightOf ar (sort_key price rs)) \<and>
            (\<forall>j<i. \<not> numGe ar (runningWeight ar (sort_key price rs) j)
                        (targetWeightOf ar (sort_key price rs)))
            \<longrightarrow> calculateWeightedMedianWith ar rs = price (sort_key price rs ! i))
       \<and> (numGe ar (runningWeight ar (sort_key price rs) (length rs - 1))
                   (targetWeightOf ar (sort_key price rs)) \<longrightarrow>
            (\<exists>i<length rs.
               numGe ar (runningWeight ar (sort_key price rs) i)
                 (targetWeightOf ar (sort_key price rs)) \<and>
               (\<forall>j<i. \<not> numGe ar (runningWeight ar (sort_key price rs) j)
                           (targetWeightOf ar (sort_key price rs)))))
       \<and> (ws \<noteq> [] \<and> (\<forall>r\<in>set ws. 0 \<le> weight r) \<and>
           (\<forall>a b. numGe er a b \<longleftrightarrow> b \<le> a) \<and> numLit er 0 = 0 \<and>
           (\<forall>a b. 0 \<le> a \<longrightarrow> 0 \<le> b \<longrightarrow> 0 \<le> numAdd er a b) \<and>
           (\<forall>a. 0 \<le> a \<longrightarrow> numDiv er a (numLit er 2) \<le> a) \<longrightarrow>
            (\<exists>i<length ws.
               numGe er (runningWeight er (sort_key price ws) i)
                 (targetWeightOf er (sort_key price ws)) \<and>
               (\<forall>j<i. \<not> numGe er (runningWeight er (sort_key price ws) j)
                           (targetWeightOf er (sort_key price ws))) \<and>
               calculateWeightedMedianWith er ws = price (sort_key price ws ! i)))
       \<and> ((\<forall>a b. numGe er a b \<longleftrightarrow> b \<le> a) \<and> numLit er 0 = 0 \<and> numLit er 2 = 2 \<and>
           numAdd er 0 10 = 10 \<and> numAdd er 10 20 = 30 \<and> numAdd er 30 50 = 80 \<and>
           numAdd er 80 30 = 110 \<and> numDiv er 110 2 = 55 \<longrightarrow>
            calculateWeightedMedianWith er scenario = 120)"
proof (intro conjI)
  show "sorted (map price (sort_key price rs))" by simp
  show "targetWeightOf ar (sort_key price rs)
           = numDiv ar (runningWeight ar (sort_key price rs) (length rs - 1)) (numLit ar 2)"
    using runningWeight_last[OF assms, of ar] by (simp add: targetWeightOf_def)
  show "\<forall>i<length rs.
            numGe ar (runningWeight ar (sort_key price rs) i) (targetWeightOf ar (sort_key price rs)) \<and>
            (\<forall>j<i. \<not> numGe ar (runningWeight ar (sort_key price rs) j)
                        (targetWeightOf ar (sort_key price rs)))
            \<longrightarrow> calculateWeightedMedianWith ar rs = price (sort_key price rs ! i)"
    using calculateWeightedMedianWith_first by blast
  show "numGe ar (runningWeight ar (sort_key price rs) (length rs - 1))
                   (targetWeightOf ar (sort_key price rs)) \<longrightarrow>
            (\<exists>i<length rs.
               numGe ar (runningWeight ar (sort_key price rs) i)
                 (targetWeightOf ar (sort_key price rs)) \<and>
               (\<forall>j<i. \<not> numGe ar (runningWeight ar (sort_key price rs) j)
                           (targetWeightOf ar (sort_key price rs))))"
    using first_reaching_exists_with[OF assms, of ar] runningWeight_last[OF assms, of ar]
    by simp
  show "ws \<noteq> [] \<and> (\<forall>r\<in>set ws. 0 \<le> weight r) \<and>
           (\<forall>a b. numGe er a b \<longleftrightarrow> b \<le> a) \<and> numLit er 0 = 0 \<and>
           (\<forall>a b. 0 \<le> a \<longrightarrow> 0 \<le> b \<longrightarrow> 0 \<le> numAdd er a b) \<and>
           (\<forall>a. 0 \<le> a \<longrightarrow> numDiv er a (numLit er 2) \<le> a) \<longrightarrow>
            (\<exists>i<length ws.
               numGe er (runningWeight er (sort_key price ws) i)
                 (targetWeightOf er (sort_key price ws)) \<and>
               (\<forall>j<i. \<not> numGe er (runningWeight er (sort_key price ws) j)
                           (targetWeightOf er (sort_key price ws))) \<and>
               calculateWeightedMedianWith er ws = price (sort_key price ws ! i))"
  proof
    assume h: "ws \<noteq> [] \<and> (\<forall>r\<in>set ws. 0 \<le> weight r) \<and>
           (\<forall>a b. numGe er a b \<longleftrightarrow> b \<le> a) \<and> numLit er 0 = 0 \<and>
           (\<forall>a b. 0 \<le> a \<longrightarrow> 0 \<le> b \<longrightarrow> 0 \<le> numAdd er a b) \<and>
           (\<forall>a. 0 \<le> a \<longrightarrow> numDiv er a (numLit er 2) \<le> a)"
    then obtain i where i: "i < length ws"
      and r: "numGe er (runningWeight er (sort_key price ws) i)
                (targetWeightOf er (sort_key price ws))"
      and b: "\<forall>j<i. \<not> numGe er (runningWeight er (sort_key price ws) j)
                          (targetWeightOf er (sort_key price ws))"
      using first_reaching_exists_nonneg[of ws er] by blast
    from i r b have "calculateWeightedMedianWith er ws = price (sort_key price ws ! i)"
      by (rule calculateWeightedMedianWith_first)
    with i r b show "\<exists>i<length ws.
               numGe er (runningWeight er (sort_key price ws) i)
                 (targetWeightOf er (sort_key price ws)) \<and>
               (\<forall>j<i. \<not> numGe er (runningWeight er (sort_key price ws) j)
                           (targetWeightOf er (sort_key price ws))) \<and>
               calculateWeightedMedianWith er ws = price (sort_key price ws ! i)"
      by blast
  qed
  show "(\<forall>a b. numGe er a b \<longleftrightarrow> b \<le> a) \<and> numLit er 0 = 0 \<and> numLit er 2 = 2 \<and>
           numAdd er 0 10 = 10 \<and> numAdd er 10 20 = 30 \<and> numAdd er 30 50 = 80 \<and>
           numAdd er 80 30 = 110 \<and> numDiv er 110 2 = 55 \<longrightarrow>
            calculateWeightedMedianWith er scenario = 120"
    by (simp add: calculateWeightedMedianWith_def scenario_def)
qed

theorem weightedMedian_first_reaching_target_witness:
  "scenario \<noteq> [] \<and> list_all (\<lambda>r. 0 \<le> weight r) scenario \<and>
   targetWeightOf exactArithmetic (sort_key price scenario) = 55 \<and>
   runningWeight exactArithmetic (sort_key price scenario) 1 = 30 \<and>
   runningWeight exactArithmetic (sort_key price scenario) 2 = 80 \<and>
   calculateWeightedMedianWith exactArithmetic scenario = price (sort_key price scenario ! 2) \<and>
   calculateWeightedMedianWith exactArithmetic scenario = 120"
proof -
  have ne: "scenario \<noteq> []" by (simp add: scenario_def)
  note t = weightedMedian_first_reaching_target[OF ne, where ar = exactArithmetic
      and er = exactArithmetic and ws = scenario]
  have r: "runningWeight exactArithmetic (sort_key price scenario) 0 = 10"
    "runningWeight exactArithmetic (sort_key price scenario) 1 = 30"
    "runningWeight exactArithmetic (sort_key price scenario) 2 = 80"
    "targetWeightOf exactArithmetic (sort_key price scenario) = 55"
    by (simp_all add: scenario_def runningWeight_def targetWeightOf_def exactArithmetic_fields
        numeral_2_eq_2)
  have b: "\<forall>j<2. \<not> numGe exactArithmetic (runningWeight exactArithmetic (sort_key price scenario) j)
                       (targetWeightOf exactArithmetic (sort_key price scenario))"
    using r by (simp add: exactArithmetic_fields less_Suc_eq numeral_2_eq_2)
  have "2 < length scenario" by (simp add: scenario_def)
  moreover have "numGe exactArithmetic (runningWeight exactArithmetic (sort_key price scenario) 2)
                   (targetWeightOf exactArithmetic (sort_key price scenario))"
    by (simp add: r exactArithmetic_fields)
  ultimately have m: "calculateWeightedMedianWith exactArithmetic scenario
                        = price (sort_key price scenario ! 2)"
    using t b by blast
  have "calculateWeightedMedianWith exactArithmetic scenario = 120"
    using t by (simp add: exactArithmetic_fields)
  with m r ne show ?thesis by (simp add: scenario_def)
qed

text \<open>
  Claim C9. For a non-empty list of responses, the value that \<^verbatim>\<open>calculateWeightedMedian\<close>
  returns is the price of a response of the list (also when the scan ends without
  returning and the last response of the sorted list is taken).
\<close>

theorem weightedMedian_in_input:
  assumes "rs \<noteq> []"
  shows "calculateWeightedMedian rs \<in> price ` set rs"
proof (cases "scanWeights (sum_list (map weight rs) / 2) 0 (sort_key price rs)")
  case None
  have "sort_key price rs ! (length rs - 1) \<in> set (sort_key price rs)"
    using assms by (intro nth_mem) simp
  then have "price (sort_key price rs ! (length rs - 1)) \<in> price ` set rs" by simp
  with None assms show ?thesis by (simp add: calculateWeightedMedian_unfold)
next
  case (Some p)
  then have "p \<in> price ` set (sort_key price rs)" by (rule scanWeights_Some_mem)
  with Some assms show ?thesis by (simp add: calculateWeightedMedian_unfold)
qed

theorem weightedMedian_in_input_witness:
  "scenario \<noteq> [] \<and> calculateWeightedMedian scenario \<in> price ` set scenario"
proof -
  have ne: "scenario \<noteq> []" by (simp add: scenario_def)
  show ?thesis using ne weightedMedian_in_input[OF ne] by simp
qed

lemma sorted_nth0_Min:
  "xs \<noteq> [] \<Longrightarrow> sorted xs \<Longrightarrow> xs ! 0 = Min (set xs)"
  by (cases xs) (auto intro!: Min_eqI[symmetric])

lemma weightedMedian_all_zero:
  assumes "rs \<noteq> []" and "\<forall>r\<in>set rs. weight r = 0"
  shows "calculateWeightedMedian rs = Min (price ` set rs)"
proof -
  have tot: "sum_list (map weight rs) = 0"
    using assms(2) by (induction rs) simp_all
  have "sort_key price rs ! 0 \<in> set (sort_key price rs)"
    using assms(1) by (intro nth_mem) simp
  then have w0: "weight (sort_key price rs ! 0) = 0" using assms(2) by simp
  have sne: "sort_key price rs \<noteq> []"
    using assms(1) length_sort[of price rs] by (metis length_0_conv)
  then have "take (Suc 0) (sort_key price rs) = [sort_key price rs ! 0]"
    by (cases "sort_key price rs") simp_all
  with w0 have "cumulativeWeightAt (sort_key price rs) 0 = 0"
    by (simp add: cumulativeWeightAt_def)
  with tot have "calculateWeightedMedian rs = price (sort_key price rs ! 0)"
    using assms(1) by (intro calculateWeightedMedian_first) simp_all
  also have "\<dots> = map price (sort_key price rs) ! 0"
    using assms(1) by (intro nth_map[symmetric]) simp
  also have "\<dots> = Min (set (map price (sort_key price rs)))"
    using sne by (intro sorted_nth0_Min) simp_all
  also have "\<dots> = Min (price ` set rs)" by simp
  finally show ?thesis .
qed

text \<open>
  Claim C5 does not hold as stated: \<^verbatim>\<open>calculateWeightedMedian\<close> has no test of the total
  weight. A single response of price 100 and weight 0 has total weight 0 and the result is
  100: the target is 0 and the first cumulative weight, 0, reaches it.
\<close>

theorem weightedMedian_zero_total_weight_counterexample:
  "sum_list (map weight [\<lparr>peerId = ''p1'', price = 100, balance = 0, weight = 0\<rparr>]) = 0 \<and>
   calculateWeightedMedian [\<lparr>peerId = ''p1'', price = 100, balance = 0, weight = 0\<rparr>] = 100 \<and>
   calculateWeightedMedian [\<lparr>peerId = ''p1'', price = 100, balance = 0, weight = 0\<rparr>] \<noteq> 0"
  by (simp add: calculateWeightedMedian_def)

text \<open>
  Claim C5, amended. \<^verbatim>\<open>calculateWeightedMedian\<close> returns 0 on the empty list. On a
  non-empty list whose weights are not negative and sum to 0 it returns the lowest price
  of the list.
\<close>

theorem weightedMedian_empty_or_zero_weight:
  "calculateWeightedMedian [] = 0 \<and>
   (rs \<noteq> [] \<and> (\<forall>r\<in>set rs. 0 \<le> weight r) \<and> sum_list (map weight rs) = 0
      \<longrightarrow> calculateWeightedMedian rs = Min (price ` set rs))"
proof (intro conjI impI)
  show "calculateWeightedMedian [] = 0" by (simp add: calculateWeightedMedian_def)
next
  assume a: "rs \<noteq> [] \<and> (\<forall>r\<in>set rs. 0 \<le> weight r) \<and> sum_list (map weight rs) = 0"
  then have "\<forall>x\<in>set (map weight rs). x = 0"
    by (subst sum_list_nonneg_eq_0_iff[symmetric]) auto
  then have "\<forall>r\<in>set rs. weight r = 0" by simp
  with a show "calculateWeightedMedian rs = Min (price ` set rs)"
    by (intro weightedMedian_all_zero) simp_all
qed

theorem weightedMedian_empty_or_zero_weight_witness:
  "zeroWeights \<noteq> [] \<and> list_all (\<lambda>r. 0 \<le> weight r) zeroWeights \<and>
   sum_list (map weight zeroWeights) = 0 \<and> calculateWeightedMedian zeroWeights = 100"
  using weightedMedian_empty_or_zero_weight[of zeroWeights]
  by (simp add: zeroWeights_def)







text \<open>
  The condition on rounding is needed. With six responses of the weight \<open>2^53 + 6\<close>, for
  every arithmetic whose sums and half total are those of binary64 (round to nearest, ties
  to even), the third running sum, \<open>3 * 2^53 + 16\<close>, is below the target \<open>3 * 2^53 + 20\<close>
  and the result is the fourth price; with exact sums it is the third.
\<close>

lemma weightedMedian_rounded_sum_misses_tie:
  fixes ar :: "real arithmetic"
  assumes "\<forall>a b. numGe ar a b \<longleftrightarrow> b \<le> a" and "numLit ar 0 = 0" and "numLit ar 2 = 2"
    and "numAdd ar 0 9007199254740998 = 9007199254740998"
    and "numAdd ar 9007199254740998 9007199254740998 = 18014398509481996"
    and "numAdd ar 18014398509481996 9007199254740998 = 27021597764222992"
    and "numAdd ar 27021597764222992 9007199254740998 = 36028797018963992"
    and "numAdd ar 36028797018963992 9007199254740998 = 45035996273704992"
    and "numAdd ar 45035996273704992 9007199254740998 = 54043195528445992"
    and "numDiv ar 54043195528445992 2 = 27021597764222996"
  shows "calculateWeightedMedianWith ar sixEqualWeights = 4"
  using assms by (simp add: calculateWeightedMedianWith_def sixEqualWeights_def)

lemma weightedMedian_exact_sum_takes_tie:
  "calculateWeightedMedianWith exactArithmetic sixEqualWeights = 3"
  by (simp add: calculateWeightedMedianWith_def sixEqualWeights_def exactArithmetic_fields)

section \<open>The reputation table\<close>

lemma reputation_get:
  "reputation (snd (getSlashingRecord d q)) p = reputation d p"
  by (simp add: reputation_def getSlashingRecord_def stmtInsert_def split: option.splits prod.splits)

lemma reputation_record_other:
  "p \<noteq> q \<Longrightarrow> reputation (recordSlashingOffense d q) p = reputation d p"
  by (simp add: reputation_def recordSlashingOffense_def getSlashingRecord_def stmtInsert_def
      stmtUpdate_def Let_def split: option.splits prod.splits)

lemma reputation_record_same:
  "reputation (recordSlashingOffense d p) p =
     \<lparr>offenses = offenses (reputation d p) + 1,
      blacklisted = (blacklisted (reputation d p) \<or>
                     SLASHING_THRESHOLD \<le> offenses (reputation d p) + 1)\<rparr>"
  by (simp add: reputation_def recordSlashingOffense_def getSlashingRecord_def stmtInsert_def
      stmtUpdate_def Let_def split: option.splits prod.splits)

lemma reputation_empty: "reputation Map.empty p = \<lparr>offenses = 0, blacklisted = False\<rparr>"
  by (simp add: reputation_def getSlashingRecord_def)

lemma applyOp_offenses_mono:
  "offenses (reputation d p) \<le> offenses (reputation (applyOp d op) p)"
proof (cases op)
  case (Get q)
  then show ?thesis by (simp add: reputation_get)
next
  case (RecordOffense q)
  then show ?thesis
    by (cases "p = q") (simp_all add: reputation_record_other reputation_record_same)
qed

lemma applyOp_blacklisted_stays:
  assumes "blacklisted (reputation d p)"
  shows "blacklisted (reputation (applyOp d op) p)"
proof (cases op)
  case (Get q)
  with assms show ?thesis by (simp add: reputation_get)
next
  case (RecordOffense q)
  with assms show ?thesis
    by (cases "p = q") (simp_all add: reputation_record_other reputation_record_same)
qed

lemma run_offenses_mono:
  "offenses (reputation d p) \<le> offenses (reputation (foldl applyOp d ops) p)"
proof (induction ops arbitrary: d)
  case Nil
  then show ?case by simp
next
  case (Cons op ops)
  have "offenses (reputation d p) \<le> offenses (reputation (applyOp d op) p)"
    by (rule applyOp_offenses_mono)
  also have "\<dots> \<le> offenses (reputation (foldl applyOp (applyOp d op) ops) p)"
    by (rule Cons.IH)
  finally show ?case by simp
qed

lemma run_blacklisted_stays:
  "blacklisted (reputation d p) \<Longrightarrow> blacklisted (reputation (foldl applyOp d ops) p)"
  by (induction ops arbitrary: d) (simp_all add: applyOp_blacklisted_stays)

text \<open>On every table reached from the empty one, blacklisted means: the threshold is reached.\<close>

lemma applyOp_threshold_inv:
  assumes "blacklisted (reputation d p) \<longleftrightarrow> SLASHING_THRESHOLD \<le> offenses (reputation d p)"
  shows "blacklisted (reputation (applyOp d op) p) \<longleftrightarrow>
         SLASHING_THRESHOLD \<le> offenses (reputation (applyOp d op) p)"
proof (cases op)
  case (Get q)
  with assms show ?thesis by (simp add: reputation_get)
next
  case (RecordOffense q)
  with assms show ?thesis
    by (cases "p = q") (auto simp: reputation_record_other reputation_record_same)
qed

lemma run_threshold_inv:
  "blacklisted (reputation (foldl applyOp Map.empty ops) p) \<longleftrightarrow>
   SLASHING_THRESHOLD \<le> offenses (reputation (foldl applyOp Map.empty ops) p)"
proof (induction ops rule: rev_induct)
  case Nil
  then show ?case by (simp add: reputation_empty SLASHING_THRESHOLD_def)
next
  case (snoc op ops)
  then show ?case using applyOp_threshold_inv[OF snoc.IH] by simp
qed

lemma applyOp_flip:
  assumes inv: "blacklisted (reputation d p) \<longleftrightarrow> SLASHING_THRESHOLD \<le> offenses (reputation d p)"
    and before: "\<not> blacklisted (reputation d p)"
    and after: "blacklisted (reputation (applyOp d op) p)"
  shows "op = RecordOffense p \<and> offenses (reputation (applyOp d op) p) = SLASHING_THRESHOLD"
proof (cases op)
  case (Get q)
  with before after show ?thesis by (simp add: reputation_get)
next
  case (RecordOffense q)
  show ?thesis
  proof (cases "p = q")
    case True
    with RecordOffense inv before after show ?thesis
      by (auto simp: reputation_record_same)
  next
    case False
    with RecordOffense before after show ?thesis by (simp add: reputation_record_other)
  qed
qed

section \<open>The two stages of the round as filters\<close>

lemma getSlashingRecord_row:
  "snd (getSlashingRecord d q) p = (if d p = None \<and> p = q then Some (0, 0) else d p)"
  by (simp add: getSlashingRecord_def stmtInsert_def split: option.splits prod.splits)

lemma passesSybilDefense_get:
  "passesSybilDefense (snd (getSlashingRecord d q)) = passesSybilDefense d"
  by (rule ext) (simp add: passesSybilDefense_def reputation_get)

lemma sybilDefense_eq:
  "sybilDefense d rs acc =
     (acc @ map validResponse (filter (passesSybilDefense d) rs),
      foldl applyOp d (map (\<lambda>r. Get (peerId r)) rs))"
proof (induction rs arbitrary: d acc)
  case Nil
  then show ?case by simp
next
  case (Cons res rest)
  obtain sr d1 where g: "getSlashingRecord d (peerId res) = (sr, d1)"
    by (cases "getSlashingRecord d (peerId res)")
  then have sr: "sr = reputation d (peerId res)" and d1: "d1 = snd (getSlashingRecord d (peerId res))"
    by (simp_all add: reputation_def)
  have p: "passesSybilDefense d1 = passesSybilDefense d"
    unfolding d1 by (rule passesSybilDefense_get)
  have step: "sybilDefense d (res # rest) acc =
                (if blacklisted sr then sybilDefense d1 rest acc
                 else if balance res < MINIMUM_STAKE_THRESHOLD then sybilDefense d1 rest acc
                 else sybilDefense d1 rest (acc @ [validResponse res]))"
    using g by (simp add: validResponse_def)
  have run: "foldl applyOp d (map (\<lambda>r. Get (peerId r)) (res # rest))
               = foldl applyOp d1 (map (\<lambda>r. Get (peerId r)) rest)"
    by (simp add: d1)
  show ?case
  proof (cases "passesSybilDefense d res")
    case True
    then have "\<not> blacklisted sr" and "\<not> balance res < MINIMUM_STAKE_THRESHOLD"
      by (simp_all add: passesSybilDefense_def sr)
    with True show ?thesis unfolding step run by (simp add: Cons.IH p)
  next
    case False
    then have "blacklisted sr \<or> balance res < MINIMUM_STAKE_THRESHOLD"
      by (simp add: passesSybilDefense_def sr)
    with False show ?thesis unfolding step run by (auto simp: Cons.IH p)
  qed
qed

lemma run_gets_row:
  "foldl applyOp d (map (\<lambda>r. Get (peerId r)) rs) p =
     (if d p = None \<and> p \<in> peerId ` set rs then Some (0, 0) else d p)"
proof (induction rs arbitrary: d)
  case Nil
  then show ?case by simp
next
  case (Cons r rs)
  show ?case by (simp add: Cons.IH getSlashingRecord_row)
qed

lemma outlierFilter_eq:
  "outlierFilter m sd d valid acc =
     (acc @ filter (\<lambda>r. \<not> isOutlier m sd r) valid,
      foldl recordSlashingOffense d (map peerId (filter (isOutlier m sd) valid)))"
proof (induction valid arbitrary: d acc)
  case Nil
  then show ?case by simp
next
  case (Cons res rest)
  have z: "(if sd = 0 then 0 else \<bar>price res - m\<bar> / sd) > 2 \<longleftrightarrow> isOutlier m sd res"
  proof (cases "sd > 0")
    case True
    then show ?thesis by (simp add: isOutlier_def pos_less_divide_eq mult.commute)
  next
    case False
    then have "sd = 0 \<or> sd < 0" by auto
    then show ?thesis
    proof
      assume "sd = 0"
      then show ?thesis by (simp add: isOutlier_def)
    next
      assume neg: "sd < 0"
      then have "\<bar>price res - m\<bar> / sd \<le> 0" by (simp add: divide_nonneg_neg)
      with neg show ?thesis by (simp add: isOutlier_def)
    qed
  qed
  show ?case
  proof (cases "isOutlier m sd res")
    case True
    with z show ?thesis by (simp add: Cons.IH Let_def)
  next
    case False
    with z show ?thesis by (simp add: Cons.IH Let_def)
  qed
qed

lemma processOracleConsensus_eq:
  assumes "sybilDefense d rs [] = (valid, d1)" and "valid \<noteq> []"
  shows "processOracleConsensus d rs =
     (let prices = map price valid;
          m = computeMedian prices;
          sd = computeStandardDeviation prices (computeMean prices);
          qualified = filter (\<lambda>r. \<not> isOutlier m sd r) valid;
          excluded = filter (isOutlier m sd) valid
      in (if qualified = [] then Inl NoResponsesPassedOutlierFilter
          else Inr \<lparr>finalPrice = calculateWeightedMedian qualified,
                    participants = length qualified,
                    totalWeight = sum_list (map weight qualified)\<rparr>,
          foldl recordSlashingOffense d1 (map peerId excluded)))"
  using assms
  by (simp add: processOracleConsensus_def outlierFilter_eq Let_def foldl_plus_sum_list)

text \<open>The round touches the table through lookups and recorded offenses only.\<close>

lemma run_offenses_ops:
  "foldl recordSlashingOffense d qs = foldl applyOp d (map RecordOffense qs)"
  by (induction qs arbitrary: d) simp_all

lemma round_store_ops:
  "\<exists>ops. snd (processOracleConsensus d rs) = foldl applyOp d ops"
proof -
  obtain valid d1 where s: "sybilDefense d rs [] = (valid, d1)"
    by (cases "sybilDefense d rs []")
  then have d1: "d1 = foldl applyOp d (map (\<lambda>r. Get (peerId r)) rs)"
    by (simp add: sybilDefense_eq)
  show ?thesis
  proof (cases "valid = []")
    case True
    with s have "snd (processOracleConsensus d rs) = d1"
      by (simp add: processOracleConsensus_def)
    with d1 show ?thesis by blast
  next
    case False
    let ?ex = "map peerId (filter (isOutlier (computeMedian (map price valid))
        (computeStandardDeviation (map price valid) (computeMean (map price valid)))) valid)"
    have "snd (processOracleConsensus d rs) = foldl recordSlashingOffense d1 ?ex"
      by (simp add: processOracleConsensus_eq[OF s False] Let_def)
    also have "\<dots> = foldl applyOp d (map (\<lambda>r. Get (peerId r)) rs @ map RecordOffense ?ex)"
      by (simp add: run_offenses_ops d1)
    finally show ?thesis by blast
  qed
qed

text \<open>
  Claim C3. Along every sequence of the table's operations (lookups and recorded offenses)
  and for every peer, the offense count never decreases and a blacklisted peer stays
  blacklisted. On every table reached from the empty one a peer is blacklisted exactly when
  its offense count has reached \<open>SLASHING_THRESHOLD\<close>, and the one operation that turns
  blacklisted from false to true is the \<^verbatim>\<open>recordSlashingOffense\<close> of that peer that
  brings the count to the threshold. A recorded offense adds exactly 1 to the count.
  A round acts on the table by a sequence of these operations only.
\<close>

theorem reputation_offenses_monotone_blacklist_once:
  "offenses (reputation d p) \<le> offenses (reputation (foldl applyOp d ops) p)
   \<and> (blacklisted (reputation d p) \<longrightarrow> blacklisted (reputation (foldl applyOp d ops) p))
   \<and> (blacklisted (reputation (foldl applyOp Map.empty ops) p) \<longleftrightarrow>
        SLASHING_THRESHOLD \<le> offenses (reputation (foldl applyOp Map.empty ops) p))
   \<and> (\<not> blacklisted (reputation (foldl applyOp Map.empty ops) p) \<and>
        blacklisted (reputation (applyOp (foldl applyOp Map.empty ops) op) p)
        \<longrightarrow> op = RecordOffense p \<and>
            offenses (reputation (applyOp (foldl applyOp Map.empty ops) op) p) = SLASHING_THRESHOLD)
   \<and> offenses (reputation (recordSlashingOffense d p) p) = offenses (reputation d p) + 1
   \<and> (\<exists>ops'. snd (processOracleConsensus d rs) = foldl applyOp d ops')"
proof (intro conjI impI)
  show "\<exists>ops'. snd (processOracleConsensus d rs) = foldl applyOp d ops'"
    by (rule round_store_ops)
  show "offenses (reputation d p) \<le> offenses (reputation (foldl applyOp d ops) p)"
    by (rule run_offenses_mono)
  show "blacklisted (reputation (foldl applyOp d ops) p)" if "blacklisted (reputation d p)"
    using that by (rule run_blacklisted_stays)
  show "blacklisted (reputation (foldl applyOp Map.empty ops) p) \<longleftrightarrow>
        SLASHING_THRESHOLD \<le> offenses (reputation (foldl applyOp Map.empty ops) p)"
    by (rule run_threshold_inv)
  show "offenses (reputation (recordSlashingOffense d p) p) = offenses (reputation d p) + 1"
    by (simp add: reputation_record_same)
next
  assume a: "\<not> blacklisted (reputation (foldl applyOp Map.empty ops) p) \<and>
        blacklisted (reputation (applyOp (foldl applyOp Map.empty ops) op) p)"
  from applyOp_flip[OF run_threshold_inv] a
  show "op = RecordOffense p" by blast
  from applyOp_flip[OF run_threshold_inv] a
  show "offenses (reputation (applyOp (foldl applyOp Map.empty ops) op) p) = SLASHING_THRESHOLD"
    by blast
qed

theorem reputation_offenses_monotone_blacklist_once_witness:
  "\<not> blacklisted (reputation (foldl applyOp Map.empty [RecordOffense ''bad'', Get ''bad'', RecordOffense ''bad'']) ''bad'') \<and>
   blacklisted (reputation (applyOp (foldl applyOp Map.empty [RecordOffense ''bad'', Get ''bad'', RecordOffense ''bad'']) (RecordOffense ''bad'')) ''bad'') \<and>
   offenses (reputation (applyOp (foldl applyOp Map.empty [RecordOffense ''bad'', Get ''bad'', RecordOffense ''bad'']) (RecordOffense ''bad'')) ''bad'') = 3 \<and>
   blacklisted (reputation (foldl applyOp (Map.empty(''bad'' \<mapsto> (3, 1))) [RecordOffense ''bad'', Get ''good'']) ''bad'')"
proof -
  have b: "blacklisted (reputation (Map.empty(''bad'' \<mapsto> (3, 1))) ''bad'')"
    by (simp add: reputation_def getSlashingRecord_def)
  have n: "\<not> blacklisted (reputation (foldl applyOp Map.empty [RecordOffense ''bad'', Get ''bad'', RecordOffense ''bad'']) ''bad'')"
    by (simp add: reputation_def getSlashingRecord_def recordSlashingOffense_def stmtInsert_def
        stmtUpdate_def SLASHING_THRESHOLD_def)
  have a: "blacklisted (reputation (applyOp (foldl applyOp Map.empty [RecordOffense ''bad'', Get ''bad'', RecordOffense ''bad'']) (RecordOffense ''bad'')) ''bad'')"
    by (simp add: reputation_def getSlashingRecord_def recordSlashingOffense_def stmtInsert_def
        stmtUpdate_def SLASHING_THRESHOLD_def)
  show ?thesis
    using b n a
      reputation_offenses_monotone_blacklist_once[of "Map.empty(''bad'' \<mapsto> (3, 1))" "''bad''"
        "[RecordOffense ''bad'', Get ''good'']" "RecordOffense ''bad''" "[]"]
      reputation_offenses_monotone_blacklist_once[of Map.empty "''bad''"
        "[RecordOffense ''bad'', Get ''bad'', RecordOffense ''bad'']" "RecordOffense ''bad''" "[]"]
    by (simp add: SLASHING_THRESHOLD_def)
qed

section \<open>The median and the standard deviation\<close>



















section \<open>The round\<close>


lemma run_gets_reputation:
  "reputation (foldl applyOp d (map (\<lambda>r. Get (peerId r)) rs)) p = reputation d p"
  by (induction rs arbitrary: d) (simp_all add: reputation_get)

lemma recordSlashingOffense_row_other:
  "p \<noteq> q \<Longrightarrow> recordSlashingOffense d q p = d p"
  by (simp add: recordSlashingOffense_def getSlashingRecord_def stmtInsert_def
      stmtUpdate_def Let_def split: option.splits prod.splits)

lemma run_offenses_row_other:
  "p \<notin> set qs \<Longrightarrow> foldl recordSlashingOffense d qs p = d p"
  by (induction qs arbitrary: d) (simp_all add: recordSlashingOffense_row_other)

lemma processOracleConsensus_no_valid:
  assumes "sybilDefense d rs [] = (valid, d1)"
  shows "fst (processOracleConsensus d rs) = Inl NoQualifiedResponses \<longleftrightarrow> valid = []"
proof (cases "valid = []")
  case True
  with assms show ?thesis by (simp add: processOracleConsensus_def)
next
  case False
  with assms show ?thesis by (simp add: processOracleConsensus_eq Let_def)
qed

text \<open>
  Claim C7 does not hold as stated: the lookup of stage 1 inserts the default row of a peer
  that has none. On the empty table the round of the single submission below the minimum
  stake fails with \<open>NoQualifiedResponses\<close> and leaves a table with a row for that peer.
\<close>

theorem no_qualified_responses_store_counterexample:
  "fst (processOracleConsensus Map.empty sybilRound) = Inl NoQualifiedResponses \<and>
   snd (processOracleConsensus Map.empty sybilRound) = Map.empty(''test_sybil'' \<mapsto> (0, 0)) \<and>
   snd (processOracleConsensus Map.empty sybilRound) \<noteq> Map.empty"
proof -
  have "processOracleConsensus Map.empty sybilRound
          = (Inl NoQualifiedResponses, Map.empty(''test_sybil'' \<mapsto> (0, 0)))"
    by (simp add: processOracleConsensus_def sybilRound_def getSlashingRecord_def stmtInsert_def
        MINIMUM_STAKE_THRESHOLD_def)
  moreover have "Map.empty(''test_sybil'' \<mapsto> (0::int, 0::int)) \<noteq> Map.empty" by simp
  ultimately show ?thesis by simp
qed

text \<open>
  Claim C7, amended. When the round fails with \<open>NoQualifiedResponses\<close>, no row that the
  table had is changed and no offense is recorded: the table differs only by the default
  rows \<open>(0, 0)\<close> of the submitting peers that had no row, and the record of every peer, as
  \<^verbatim>\<open>getSlashingRecord\<close> reports it, is the same before and after.
\<close>

theorem no_qualified_responses_store:
  assumes "fst (processOracleConsensus d rs) = Inl NoQualifiedResponses"
  shows "(\<forall>p. snd (processOracleConsensus d rs) p =
               (if d p = None \<and> p \<in> peerId ` set rs then Some (0, 0) else d p))
       \<and> (\<forall>p. reputation (snd (processOracleConsensus d rs)) p = reputation d p)"
proof -
  obtain valid d1 where s: "sybilDefense d rs [] = (valid, d1)"
    by (cases "sybilDefense d rs []")
  with assms have "valid = []" by (simp add: processOracleConsensus_no_valid)
  with s have "snd (processOracleConsensus d rs) = d1"
    by (simp add: processOracleConsensus_def)
  moreover from s have "d1 = foldl applyOp d (map (\<lambda>r. Get (peerId r)) rs)"
    by (simp add: sybilDefense_eq)
  ultimately show ?thesis by (simp add: run_gets_row run_gets_reputation)
qed

theorem no_qualified_responses_store_witness:
  "fst (processOracleConsensus Map.empty sybilRound) = Inl NoQualifiedResponses \<and>
   snd (processOracleConsensus Map.empty sybilRound) ''test_sybil'' = Some (0, 0) \<and>
   snd (processOracleConsensus Map.empty sybilRound) ''peer_1'' = None \<and>
   reputation (snd (processOracleConsensus Map.empty sybilRound)) ''test_sybil''
     = reputation Map.empty ''test_sybil''"
proof -
  have f: "fst (processOracleConsensus Map.empty sybilRound) = Inl NoQualifiedResponses"
    by (simp add: processOracleConsensus_def sybilRound_def getSlashingRecord_def stmtInsert_def
        MINIMUM_STAKE_THRESHOLD_def)
  show ?thesis
    using f no_qualified_responses_store[OF f] by (simp add: sybilRound_def)
qed

lemma blacklisted_row: "blacklisted (reputation d p) \<Longrightarrow> d p \<noteq> None"
  by (cases "d p") (auto simp: reputation_def getSlashingRecord_def)

lemma validResponse_peerId: "peerId (validResponse r) = peerId r"
  by (simp add: validResponse_def)

text \<open>
  Claim C4. When the table has a peer blacklisted at the start of a round, the round (its
  result or error, and the table it leaves) is the round without the submissions of that
  peer: the peer is not among the valid responses, adds nothing to \<^verbatim>\<open>participants\<close> or
  \<^verbatim>\<open>totalWeight\<close>, and its row is left as it was, so no offense is recorded for it.
\<close>

theorem blacklisted_peer_dropped:
  assumes "blacklisted (reputation d p)"
  shows "processOracleConsensus d rs = processOracleConsensus d (filter (\<lambda>r. peerId r \<noteq> p) rs)
       \<and> snd (processOracleConsensus d rs) p = d p
       \<and> p \<notin> peerId ` set (fst (sybilDefense d rs []))"
proof (intro conjI)
  let ?rs' = "filter (\<lambda>r. peerId r \<noteq> p) rs"
  from assms have row: "d p \<noteq> None" by (rule blacklisted_row)
  have f: "filter (passesSybilDefense d) ?rs' = filter (passesSybilDefense d) rs"
    using assms by (auto simp: passesSybilDefense_def intro!: filter_cong)
  have g: "foldl applyOp d (map (\<lambda>r. Get (peerId r)) ?rs')
             = foldl applyOp d (map (\<lambda>r. Get (peerId r)) rs)"
  proof (rule ext)
    fix q
    show "foldl applyOp d (map (\<lambda>r. Get (peerId r)) ?rs') q
            = foldl applyOp d (map (\<lambda>r. Get (peerId r)) rs) q"
      using row by (cases "q = p") (auto simp: run_gets_row)
  qed
  have "sybilDefense d ?rs' [] = sybilDefense d rs []"
    by (simp only: sybilDefense_eq f g)
  then show "processOracleConsensus d rs = processOracleConsensus d ?rs'"
    by (simp add: processOracleConsensus_def)
  obtain valid d1 where s: "sybilDefense d rs [] = (valid, d1)"
    by (cases "sybilDefense d rs []")
  then have valid: "valid = map validResponse (filter (passesSybilDefense d) rs)"
    and d1: "d1 = foldl applyOp d (map (\<lambda>r. Get (peerId r)) rs)"
    by (simp_all add: sybilDefense_eq)
  have notin: "p \<notin> peerId ` set valid"
    using assms by (auto simp: valid validResponse_peerId passesSybilDefense_def)
  with s show "p \<notin> peerId ` set (fst (sybilDefense d rs []))" by simp
  have d1p: "d1 p = d p" using row by (simp add: d1 run_gets_row)
  show "snd (processOracleConsensus d rs) p = d p"
  proof (cases "valid = []")
    case True
    with s d1p show ?thesis by (simp add: processOracleConsensus_def)
  next
    case False
    let ?m = "computeMedian (map price valid)"
    let ?sd = "computeStandardDeviation (map price valid) (computeMean (map price valid))"
    have "p \<notin> set (map peerId (filter (isOutlier ?m ?sd) valid))"
      using notin by auto
    then have "foldl recordSlashingOffense d1 (map peerId (filter (isOutlier ?m ?sd) valid)) p
                 = d1 p"
      by (rule run_offenses_row_other)
    with d1p show ?thesis
      by (simp add: processOracleConsensus_eq[OF s False] Let_def)
  qed
qed

theorem blacklisted_peer_dropped_witness:
  "blacklisted (reputation blacklistTable ''bad_actor'') \<and>
   fst (processOracleConsensus blacklistTable blacklistRound)
     = Inr \<lparr>finalPrice = 100, participants = 3, totalWeight = 60\<rparr> \<and>
   snd (processOracleConsensus blacklistTable blacklistRound) ''bad_actor'' = Some (3, 1)"
proof -
  have b: "blacklisted (reputation blacklistTable ''bad_actor'')"
    by (simp add: blacklistTable_def reputation_def getSlashingRecord_def)
  have r: "filter (\<lambda>r. peerId r \<noteq> ''bad_actor'') blacklistRound = take 3 blacklistRound"
    by (simp add: blacklistRound_def)
  have s: "sybilDefense blacklistTable (take 3 blacklistRound) []
             = (map validResponse (take 3 blacklistRound),
                foldl applyOp blacklistTable (map (\<lambda>r. Get (peerId r)) (take 3 blacklistRound)))"
    by (simp add: sybilDefense_eq blacklistRound_def blacklistTable_def passesSybilDefense_def
        reputation_def getSlashingRecord_def MINIMUM_STAKE_THRESHOLD_def)
  have st: "computeStandardDeviation (map price (map validResponse (take 3 blacklistRound)))
       (computeMean (map price (map validResponse (take 3 blacklistRound)))) = 0"
    by (simp add: blacklistRound_def validResponse_def computeMean_def
        computeStandardDeviation_def)
  have w: "calculateWeightedMedian (map validResponse (take 3 blacklistRound)) = 100"
    by (simp add: blacklistRound_def validResponse_def calculateWeightedMedian_def)
  have ne: "map validResponse (take 3 blacklistRound) \<noteq> []"
    by (simp add: blacklistRound_def)
  have "fst (processOracleConsensus blacklistTable (take 3 blacklistRound))
          = Inr \<lparr>finalPrice = 100, participants = 3, totalWeight = 60\<rparr>"
    unfolding processOracleConsensus_eq[OF s ne]
    by (simp add: isOutlier_def Let_def blacklistRound_def validResponse_def computeMedian_def
        computeMean_def computeStandardDeviation_def calculateWeightedMedian_def)
  moreover note t = blacklisted_peer_dropped[OF b, of blacklistRound, unfolded r]
  have "processOracleConsensus blacklistTable blacklistRound
          = processOracleConsensus blacklistTable (take 3 blacklistRound)"
    by (rule t[THEN conjunct1])
  moreover have "snd (processOracleConsensus blacklistTable blacklistRound) ''bad_actor''
                   = blacklistTable ''bad_actor''"
    by (rule t[THEN conjunct2, THEN conjunct1])
  ultimately show ?thesis
    using b by (simp add: blacklistTable_def)
qed



end
